theory Spec2Isabelle
  imports Complex_Main "HOL-Library.Multiset"
begin

section \<open>Errors as values\<close>

text \<open>
  The Python exceptions that the modelled code can raise.  \<open>ValueError\<close> carries its
  message.  A computation that may raise returns \<open>error + 'a\<close>, with \<open>Inl\<close> the
  exception.
\<close>

datatype error = IndexError | KeyError | NameError | UnboundLocalError | ValueError string

definition bind_result :: "error + 'a \<Rightarrow> ('a \<Rightarrow> error + 'b) \<Rightarrow> error + 'b" where
  "bind_result m f = (case m of Inl e \<Rightarrow> Inl e | Inr v \<Rightarrow> f v)"

definition try_except :: "error + 'a \<Rightarrow> error \<Rightarrow> (error + 'a) \<Rightarrow> error + 'a" where
  \<comment> \<open>\<open>try: m except exc: handler\<close>: only the named exception is caught.\<close>
  "try_except m exc handler =
     (case m of Inl e \<Rightarrow> (if e = exc then handler else Inl e) | Inr v \<Rightarrow> Inr v)"


section \<open>The numpy operations used by the module\<close>

text \<open>
  Arrays are lists; samples are real numbers (exact arithmetic, no NaN and no infinity);
  sample indices are natural numbers.
\<close>

definition np_where :: "bool list \<Rightarrow> nat list" where
  \<comment> \<open>\<open>np.where(mask)[0]\<close>: the positions at which the condition holds, ascending.\<close>
  "np_where cond = filter (\<lambda>i. cond ! i) [0..<length cond]"

definition np_diff :: "'a::minus list \<Rightarrow> 'a list" where
  \<comment> \<open>\<open>np.diff(a)\<close>, that is \<open>a[1:] - a[:-1]\<close>.\<close>
  "np_diff a = map2 (\<lambda>u v. u - v) (tl a) (butlast a)"

definition np_take :: "'a list \<Rightarrow> nat list \<Rightarrow> error + 'a list" where
  \<comment> \<open>\<open>a[idx]\<close> with an integer array of non-negative positions (every index array of
      the module is one: the locator returns at least one extremum).\<close>
  "np_take a idx =
     (if \<forall>i \<in> set idx. i < length a then Inr (map (\<lambda>i. a ! i) idx) else Inl IndexError)"

definition np_delete :: "'a list \<Rightarrow> nat list \<Rightarrow> error + 'a list" where
  \<comment> \<open>\<open>np.delete(a, idx)\<close>: all listed positions are removed in one pass.\<close>
  "np_delete a idx =
     (if \<forall>i \<in> set idx. i < length a
      then Inr (map (\<lambda>i. a ! i) (filter (\<lambda>i. i \<notin> set idx) [0..<length a]))
      else Inl IndexError)"

definition np_median :: "real list \<Rightarrow> real" where
  \<comment> \<open>On an empty array numpy returns NaN (with a warning); the only caller then compares
      an empty array against it, which selects nothing whatever the value is.\<close>
  "np_median a =
     (let s = sort a; n = length a
      in if n = 0 then 0
         else if odd n then s ! (n div 2)
         else (s ! (n div 2 - 1) + s ! (n div 2)) / 2)"

primrec arg_scan :: "(real \<Rightarrow> real \<Rightarrow> bool) \<Rightarrow> real list \<Rightarrow> nat \<Rightarrow> nat \<Rightarrow> real \<Rightarrow> nat" where
  \<comment> \<open>Linear scan keeping the position of the first best value seen so far.\<close>
  "arg_scan better [] i best bv = best"
| "arg_scan better (v # vs) i best bv =
     (if better v bv then arg_scan better vs (Suc i) i v
      else arg_scan better vs (Suc i) best bv)"

definition np_argmax :: "real list \<Rightarrow> error + nat" where
  "np_argmax a =
     (case a of
        [] \<Rightarrow> Inl (ValueError ''attempt to get argmax of an empty sequence'')
      | v # vs \<Rightarrow> Inr (arg_scan (\<lambda>u w. u > w) vs 1 0 v))"

definition np_argmin :: "real list \<Rightarrow> error + nat" where
  "np_argmin a =
     (case a of
        [] \<Rightarrow> Inl (ValueError ''attempt to get argmin of an empty sequence'')
      | v # vs \<Rightarrow> Inr (arg_scan (\<lambda>u w. u < w) vs 1 0 v))"

definition py_slice :: "'a list \<Rightarrow> nat \<Rightarrow> nat \<Rightarrow> 'a list" where
  \<comment> \<open>\<open>a[start:stop]\<close> for non-negative bounds.\<close>
  "py_slice a start stop = drop start (take stop a)"

fun every_second :: "'a list \<Rightarrow> 'a list" where
  \<comment> \<open>\<open>a[::2]\<close>.\<close>
  "every_second [] = []"
| "every_second [v] = [v]"
| "every_second (v # w # vs) = v # every_second vs"


section \<open>The extrema locator\<close>

definition risex :: "real list \<Rightarrow> nat list" where
  "risex rsp_cleaned =
     (let greater = map (\<lambda>v. v > 0) rsp_cleaned;
          smaller = map (\<lambda>v. v < 0) rsp_cleaned
      in np_where (map2 (\<lambda>p q. p \<and> q) (butlast smaller) (tl greater)))"

definition fallx :: "real list \<Rightarrow> nat list" where
  "fallx rsp_cleaned =
     (let greater = map (\<lambda>v. v > 0) rsp_cleaned;
          smaller = map (\<lambda>v. v < 0) rsp_cleaned
      in np_where (map2 (\<lambda>p q. p \<and> q) (butlast greater) (tl smaller)))"

definition startx :: "real list \<Rightarrow> string option" where
  \<comment> \<open>Only evaluated when both crossing lists are non-empty; \<open>None\<close> is the variable left
      unbound when neither branch of the \<open>if\<close>/\<open>elif\<close> is taken.\<close>
  "startx rsp_cleaned =
     (if hd (risex rsp_cleaned) < hd (fallx rsp_cleaned) then Some ''rise''
      else if hd (fallx rsp_cleaned) < hd (risex rsp_cleaned) then Some ''fall''
      else None)"

definition allx :: "real list \<Rightarrow> nat list" where
  "allx rsp_cleaned = sort (risex rsp_cleaned @ fallx rsp_cleaned)"

definition select_argextreme :: "string option \<Rightarrow> nat \<Rightarrow> error + (real list \<Rightarrow> error + nat)" where
  "select_argextreme sx i =
     (if sx = None then Inl UnboundLocalError
      else if sx = Some ''rise'' then
        (if (i + 1) mod 2 \<noteq> 0 then Inr np_argmax else Inr np_argmin)
      else if sx = Some ''fall'' then
        (if (i + 1) mod 2 \<noteq> 0 then Inr np_argmin else Inr np_argmax)
      else Inl UnboundLocalError)"

primrec extrema_loop ::
  "real list \<Rightarrow> string option \<Rightarrow> nat list \<Rightarrow> nat list \<Rightarrow> nat list \<Rightarrow> error + nat list" where
  \<comment> \<open>The \<open>for i in range(len(allx) - 1)\<close> loop; the fourth argument is the part of the
      range still to visit, the fifth the list \<open>extrema\<close> built so far.\<close>
  "extrema_loop rsp_cleaned sx ax [] extrema = Inr extrema"
| "extrema_loop rsp_cleaned sx ax (i # rest) extrema =
     (case select_argextreme sx i of
        Inl e \<Rightarrow> Inl e
      | Inr argextreme \<Rightarrow>
          (case argextreme (py_slice rsp_cleaned (ax ! i) (ax ! (i + 1))) of
             Inl e \<Rightarrow> Inl e
           | Inr extreme \<Rightarrow>
               extrema_loop rsp_cleaned sx ax rest (extrema @ [ax ! i + extreme])))"

definition rsp_findpeaks_extrema :: "real list \<Rightarrow> error + nat list" where
  "rsp_findpeaks_extrema rsp_cleaned =
     (if risex rsp_cleaned = [] \<or> fallx rsp_cleaned = [] then Inl IndexError
      else extrema_loop rsp_cleaned (startx rsp_cleaned) (allx rsp_cleaned)
             [0..<length (allx rsp_cleaned) - 1] [])"


section \<open>The outlier filter\<close>

definition amplitude_filter :: "real list \<Rightarrow> nat list \<Rightarrow> real \<Rightarrow> error + nat list" where
  \<comment> \<open>First half of \<open>_rsp_findpeaks_outliers\<close>: the retention test on the vertical
      distance to the next extremum.\<close>
  "amplitude_filter rsp_cleaned extrema amplitude_min =
     bind_result (np_take rsp_cleaned extrema) (\<lambda>amps.
       let vertical_diff = map abs (np_diff amps);
           median_diff = np_median vertical_diff;
           min_diff = np_where (map (\<lambda>v. v > median_diff * amplitude_min) vertical_diff)
       in np_take extrema min_diff)"

definition alternation_repair :: "real list \<Rightarrow> nat list \<Rightarrow> error + (nat list \<times> real list)" where
  \<comment> \<open>Second half of \<open>_rsp_findpeaks_outliers\<close>: removal of the extrema that break the
      alternation of the signs of the amplitude differences.\<close>
  "alternation_repair rsp_cleaned extrema =
     bind_result (np_take rsp_cleaned extrema) (\<lambda>amplitudes.
       let extdiffs = map sgn (np_diff amplitudes);
           extdiffs2 = map2 (\<lambda>u v. u + v) (butlast extdiffs) (tl extdiffs);
           removeext = map (\<lambda>k. k + 1) (np_where (map (\<lambda>v. v \<noteq> 0) extdiffs2))
       in bind_result (np_delete extrema removeext) (\<lambda>extrema'.
          bind_result (np_delete amplitudes removeext) (\<lambda>amplitudes'.
            Inr (extrema', amplitudes'))))"

definition rsp_findpeaks_outliers ::
  "real list \<Rightarrow> nat list \<Rightarrow> real \<Rightarrow> error + (nat list \<times> real list)" where
  "rsp_findpeaks_outliers rsp_cleaned extrema amplitude_min =
     bind_result (amplitude_filter rsp_cleaned extrema amplitude_min)
       (alternation_repair rsp_cleaned)"


section \<open>The sequence sanitizer\<close>

definition rsp_findpeaks_sanitize :: "nat list \<Rightarrow> real list \<Rightarrow> error + (nat list \<times> nat list)" where
  \<comment> \<open>Returns \<open>(peaks, troughs)\<close>.  \<open>amplitudes[1]\<close> and \<open>amplitudes[-2]\<close> raise below
      length 2.\<close>
  "rsp_findpeaks_sanitize extrema amplitudes =
     (if length amplitudes < 2 then Inl IndexError
      else
        bind_result
          (if amplitudes ! 0 > amplitudes ! 1 then np_delete extrema [0] else Inr extrema)
          (\<lambda>extrema1.
        bind_result
          (if amplitudes ! (length amplitudes - 1) < amplitudes ! (length amplitudes - 2)
           then (if extrema1 = [] then Inl IndexError
                 else np_delete extrema1 [length extrema1 - 1])
           else Inr extrema1)
          (\<lambda>extrema2.
        Inr (every_second (tl extrema2), every_second (butlast extrema2)))))"


section \<open>The method variants\<close>

record info =
  RSP_Peaks :: "nat list"
  RSP_Troughs :: "nat list"

definition rsp_findpeaks_khodadad :: "real list \<Rightarrow> real \<Rightarrow> error + info" where
  "rsp_findpeaks_khodadad rsp_cleaned amplitude_min =
     bind_result (rsp_findpeaks_extrema rsp_cleaned) (\<lambda>extrema.
     bind_result (rsp_findpeaks_outliers rsp_cleaned extrema amplitude_min) (\<lambda>(extrema, amplitudes).
     bind_result (rsp_findpeaks_sanitize extrema amplitudes) (\<lambda>(peaks, troughs).
       Inr \<lparr>RSP_Peaks = peaks, RSP_Troughs = troughs\<rparr>)))"

definition rate_below :: "int \<Rightarrow> int \<Rightarrow> bool" where
  \<comment> \<open>\<open>(d / sampling_rate) < 1.7\<close> on an integer difference \<open>d\<close>.  Dividing by zero gives
      \<open>inf\<close>, \<open>-inf\<close> or NaN in numpy, of which only \<open>-inf\<close> is below 1.7.\<close>
  "rate_below d sampling_rate =
     (if sampling_rate = 0 then d < 0 else real_of_int d / real_of_int sampling_rate < 17 / 10)"

definition outlier_idcs :: "nat list \<Rightarrow> int \<Rightarrow> nat list" where
  "outlier_idcs peaks sampling_rate =
     np_where (map (\<lambda>d. rate_below d sampling_rate) (np_diff (map int peaks)))"

definition rsp_findpeaks_biosppy :: "real list \<Rightarrow> int \<Rightarrow> error + info" where
  "rsp_findpeaks_biosppy rsp_cleaned sampling_rate =
     bind_result (rsp_findpeaks_extrema rsp_cleaned) (\<lambda>extrema.
     bind_result (rsp_findpeaks_outliers rsp_cleaned extrema 0) (\<lambda>(extrema, amplitudes).
     bind_result (rsp_findpeaks_sanitize extrema amplitudes) (\<lambda>(peaks, troughs).
     bind_result (np_delete peaks (outlier_idcs peaks sampling_rate)) (\<lambda>peaks'.
     bind_result (np_delete troughs (outlier_idcs peaks sampling_rate)) (\<lambda>troughs'.
       Inr \<lparr>RSP_Peaks = peaks', RSP_Troughs = troughs'\<rparr>)))))"

text \<open>
  The two remaining variants delegate to code outside the module: \<open>detect_peaks_troughs\<close>
  of \<open>signal_processing.utils\<close> and \<open>scipy.signal.find_peaks\<close>.  Both are parameters of
  the model.
\<close>

definition rsp_findpeaks_noto ::
  "(real list \<Rightarrow> real \<Rightarrow> int \<Rightarrow> error + (nat list \<times> nat list)) \<Rightarrow>
   real list \<Rightarrow> real \<Rightarrow> int \<Rightarrow> error + info" where
  "rsp_findpeaks_noto detect_peaks_troughs rsp_cleaned delta lookahead =
     bind_result (detect_peaks_troughs rsp_cleaned delta lookahead) (\<lambda>(peaks, troughs).
       Inr \<lparr>RSP_Peaks = peaks, RSP_Troughs = troughs\<rparr>)"

definition rsp_findpeaks_scipy ::
  "(real list \<Rightarrow> real \<Rightarrow> real \<Rightarrow> error + nat list) \<Rightarrow>
   real list \<Rightarrow> int \<Rightarrow> real \<Rightarrow> real \<Rightarrow> error + info" where
  "rsp_findpeaks_scipy find_peaks rsp_cleaned sampling_rate peak_distance peak_prominence =
     (let peak_distance = real_of_int sampling_rate * peak_distance in
      bind_result (find_peaks rsp_cleaned peak_distance peak_prominence) (\<lambda>peaks.
      bind_result (find_peaks (map uminus rsp_cleaned) peak_distance peak_prominence) (\<lambda>troughs.
      let extrema = sort (peaks @ troughs) in
      bind_result (rsp_findpeaks_outliers rsp_cleaned extrema 0) (\<lambda>(extrema, amplitudes).
      bind_result (rsp_findpeaks_sanitize extrema amplitudes) (\<lambda>(peaks, troughs).
        Inr \<lparr>RSP_Peaks = peaks, RSP_Troughs = troughs\<rparr>)))))"


section \<open>The entry point\<close>

text \<open>
  The input is either array-like or a table (a pandas DataFrame), a finite map from column
  names to columns.  Strings are sequences of characters with code points below 256.
\<close>

datatype rsp_input = ArrayLike "real list" | DataFrame "string \<rightharpoonup> real list"

definition getitem :: "(string \<rightharpoonup> real list) \<Rightarrow> string \<Rightarrow> error + real list" where
  \<comment> \<open>\<open>df[col]\<close>: a missing column raises \<open>KeyError\<close>.\<close>
  "getitem df col = (case df col of None \<Rightarrow> Inl KeyError | Some c \<Rightarrow> Inr c)"

definition retrieve_column :: "rsp_input \<Rightarrow> error + real list" where
  "retrieve_column rsp_cleaned =
     (case rsp_cleaned of
        ArrayLike a \<Rightarrow> Inr a
      | DataFrame df \<Rightarrow>
          try_except (getitem df ''RSP_Clean'') NameError
            (try_except (getitem df ''RSP_Raw'') NameError
               (getitem df ''RSP'')))"

definition lower_char :: "char \<Rightarrow> char" where
  "lower_char c =
     (let n = (of_char c :: nat)
      in if (65 \<le> n \<and> n \<le> 90) \<or> (192 \<le> n \<and> n \<le> 222 \<and> n \<noteq> 215)
         then char_of (n + 32) else c)"

definition lower :: "string \<Rightarrow> string" where
  "lower s = map lower_char s"

definition method_error :: string where
  "method_error =
     ''NeuroKit error: rsp_findpeaks(): 'method' should be one of 'khodadad2018', 'scipy' or 'biosppy'.''"

definition select_method ::
  "(real list \<Rightarrow> real \<Rightarrow> int \<Rightarrow> error + (nat list \<times> nat list)) \<Rightarrow>
   (real list \<Rightarrow> real \<Rightarrow> real \<Rightarrow> error + nat list) \<Rightarrow>
   real list \<Rightarrow> int \<Rightarrow> string \<Rightarrow> real \<Rightarrow> real \<Rightarrow> real \<Rightarrow> real \<Rightarrow> int \<Rightarrow> error + info" where
  \<comment> \<open>The dispatch on the method name, after \<open>cleaned = np.array(rsp_cleaned)\<close>.\<close>
  "select_method detect_peaks_troughs find_peaks cleaned sampling_rate method0 amplitude_min
       peak_distance peak_prominence delta lookahead =
     (let method = lower method0 in
      if method \<in> set [''khodadad'', ''khodadad2018''] then
        rsp_findpeaks_khodadad cleaned amplitude_min
      else if method = ''biosppy'' then
        rsp_findpeaks_biosppy cleaned sampling_rate
      else if method \<in> set [''noto'', ''noto2018''] then
        rsp_findpeaks_noto detect_peaks_troughs cleaned delta lookahead
      else if method = ''scipy'' then
        rsp_findpeaks_scipy find_peaks cleaned sampling_rate peak_distance peak_prominence
      else Inl (ValueError method_error))"

definition rsp_findpeaks ::
  "(real list \<Rightarrow> real \<Rightarrow> int \<Rightarrow> error + (nat list \<times> nat list)) \<Rightarrow>
   (real list \<Rightarrow> real \<Rightarrow> real \<Rightarrow> error + nat list) \<Rightarrow>
   rsp_input \<Rightarrow> int \<Rightarrow> string \<Rightarrow> real \<Rightarrow> real \<Rightarrow> real \<Rightarrow> real \<Rightarrow> int \<Rightarrow> error + info" where
  "rsp_findpeaks detect_peaks_troughs find_peaks rsp_cleaned sampling_rate method amplitude_min
       peak_distance peak_prominence delta lookahead =
     bind_result (retrieve_column rsp_cleaned) (\<lambda>cleaned.
       select_method detect_peaks_troughs find_peaks cleaned sampling_rate method amplitude_min
         peak_distance peak_prominence delta lookahead)"


section \<open>Notions used to state the properties\<close>

text \<open>
  The merged landmark sequence: the returned troughs and peaks, each tagged with its kind,
  ordered by sample index.
\<close>

datatype landmark = Trough | Peak

definition merged :: "nat list \<Rightarrow> nat list \<Rightarrow> (nat \<times> landmark) list" where
  "merged peaks troughs =
     sort_key fst (map (\<lambda>t. (t, Trough)) troughs @ map (\<lambda>p. (p, Peak)) peaks)"

text \<open>The trough/peak pairs \<open>t\<^sub>0, p\<^sub>0, t\<^sub>1, p\<^sub>1, \<dots>\<close> taken position by position.\<close>

definition pairs :: "nat list \<Rightarrow> nat list \<Rightarrow> (nat \<times> landmark) list" where
  "pairs ts ps = concat (map (\<lambda>(t, p). [(t, Trough), (p, Peak)]) (zip ts ps))"

text \<open>One pass through the body of the loop of the extrema locator, for window \<open>i\<close>.\<close>

definition window_extreme :: "real list \<Rightarrow> string option \<Rightarrow> nat list \<Rightarrow> nat \<Rightarrow> error + nat" where
  "window_extreme x sx ax i =
     (case select_argextreme sx i of
        Inl e \<Rightarrow> Inl e
      | Inr argextreme \<Rightarrow>
          (case argextreme (py_slice x (ax ! i) (ax ! (i + 1))) of
             Inl e \<Rightarrow> Inl e
           | Inr extreme \<Rightarrow> Inr (ax ! i + extreme)))"


text \<open>\<open>occurs_in p s\<close>: the string \<open>p\<close> is a contiguous part of the string \<open>s\<close>.\<close>

fun occurs_in :: "string \<Rightarrow> string \<Rightarrow> bool" where
  "occurs_in p [] = (p = [])"
| "occurs_in p (c # cs) = (take (length p) (c # cs) = p \<or> occurs_in p cs)"


text \<open>
  An example signal: twenty half-cycles of three samples each, ten breaths, the two in the
  middle shallow.  Its extrema are the middle samples 4, 7, \<dots>, 55 of the half-cycles.
\<close>

definition two_shallow_breaths :: "real list" where
  "two_shallow_breaths =
     [- 1, - 40, - 1, 1, 40, 1, - 1, - 40, - 1, 1, 40, 1,
      - 1, - 40, - 1, 1, 40, 1, - 1, - 40, - 1, 1, 20, 1,
      - 1, - 10, - 1, 1, 10, 1, - 1, - 2, - 1, 1, 20, 1,
      - 1, - 40, - 1, 1, 40, 1, - 1, - 40, - 1, 1, 40, 1,
      - 1, - 40, - 1, 1, 40, 1, - 1, - 40, - 1, 1, 40, 1]"


text \<open>
  Stand-ins for the two external detectors, for running the entry point on examples whose
  method does not reach them.
\<close>

definition no_detect_peaks_troughs :: "real list \<Rightarrow> real \<Rightarrow> int \<Rightarrow> error + (nat list \<times> nat list)" where
  "no_detect_peaks_troughs a delta lookahead = Inr ([], [])"

definition no_find_peaks :: "real list \<Rightarrow> real \<Rightarrow> real \<Rightarrow> error + nat list" where
  "no_find_peaks a distance prominence = Inr []"


section \<open>Basic facts about the building blocks\<close>

lemma bind_result_Inl [simp]: "bind_result (Inl e) f = Inl e"
  by (simp add: bind_result_def)

lemma bind_result_Inr [simp]: "bind_result (Inr v) f = f v"
  by (simp add: bind_result_def)

lemma bind_result_eq_Inr:
  "bind_result m f = Inr y \<longleftrightarrow> (\<exists>v. m = Inr v \<and> f v = Inr y)"
  by (cases m) simp_all

lemma sorted_np_where: "sorted_wrt (<) (np_where c)"
  by (simp add: np_where_def sorted_wrt_filter)

lemma set_np_where: "set (np_where c) = {i. i < length c \<and> c ! i}"
  by (auto simp: np_where_def)

lemma length_np_diff: "length (np_diff a) = length a - 1"
  by (simp add: np_diff_def)

lemma nth_np_diff: "i < length a - 1 \<Longrightarrow> np_diff a ! i = a ! Suc i - a ! i"
  by (simp add: np_diff_def nth_tl nth_butlast)

lemma set_risex:
  "set (risex x) = {i. Suc i < length x \<and> x ! i < 0 \<and> 0 < x ! Suc i}"
  by (auto simp: risex_def set_np_where nth_tl nth_butlast)

lemma set_fallx:
  "set (fallx x) = {i. Suc i < length x \<and> 0 < x ! i \<and> x ! Suc i < 0}"
  by (auto simp: fallx_def set_np_where nth_tl nth_butlast)

lemma allx_strict: "sorted_wrt (<) (allx x)"
proof -
  have "distinct (risex x)" "distinct (fallx x)"
    using sorted_np_where strict_sorted_iff by (auto simp: risex_def fallx_def Let_def)
  moreover have "set (risex x) \<inter> set (fallx x) = {}"
    by (auto simp: set_risex set_fallx)
  ultimately have "distinct (risex x @ fallx x)" by simp
  then show ?thesis
    by (simp add: allx_def strict_sorted_iff)
qed

lemma startx_bound:
  assumes "risex x \<noteq> []" "fallx x \<noteq> []"
  shows "startx x = Some ''rise'' \<or> startx x = Some ''fall''"
proof -
  have "hd (risex x) \<in> set (risex x)" "hd (fallx x) \<in> set (fallx x)"
    using assms by simp_all
  then have "hd (risex x) \<noteq> hd (fallx x)"
    by (auto simp: set_risex set_fallx)
  then show ?thesis by (auto simp: startx_def)
qed

lemma length_allx: "length (allx x) = length (risex x) + length (fallx x)"
  by (simp add: allx_def)

lemma arg_scan_max:
  assumes "length pre = i" "best < i" "pre ! best = bv"
    and "\<forall>j<i. pre ! j \<le> bv" and "\<forall>j<best. pre ! j < bv"
  shows "let r = arg_scan (\<lambda>u w. u > w) vs i best bv; a = pre @ vs
         in r < length a \<and> (\<forall>j<length a. a ! j \<le> a ! r) \<and> (\<forall>j<r. a ! j < a ! r)"
  using assms
proof (induction vs arbitrary: pre i best bv)
  case Nil
  then show ?case by (simp add: Let_def)
next
  case (Cons v vs)
  show ?case
  proof (cases "v > bv")
    case True
    have "let r = arg_scan (\<lambda>u w. u > w) vs (Suc i) i v; a = (pre @ [v]) @ vs
         in r < length a \<and> (\<forall>j<length a. a ! j \<le> a ! r) \<and> (\<forall>j<r. a ! j < a ! r)"
    proof (rule Cons.IH)
      show "length (pre @ [v]) = Suc i" using Cons.prems by simp
      show "i < Suc i" by simp
      show "(pre @ [v]) ! i = v" using Cons.prems by (simp add: nth_append)
      show "\<forall>j<Suc i. (pre @ [v]) ! j \<le> v"
        using Cons.prems True by (auto simp: nth_append less_Suc_eq intro: order.trans less_imp_le)
      show "\<forall>j<i. (pre @ [v]) ! j < v"
        using Cons.prems True by (auto simp: nth_append intro: le_less_trans)
    qed
    with True show ?thesis by simp
  next
    case False
    have "let r = arg_scan (\<lambda>u w. u > w) vs (Suc i) best bv; a = (pre @ [v]) @ vs
         in r < length a \<and> (\<forall>j<length a. a ! j \<le> a ! r) \<and> (\<forall>j<r. a ! j < a ! r)"
    proof (rule Cons.IH)
      show "length (pre @ [v]) = Suc i" using Cons.prems by simp
      show "best < Suc i" using Cons.prems by simp
      show "(pre @ [v]) ! best = bv" using Cons.prems by (simp add: nth_append)
      show "\<forall>j<Suc i. (pre @ [v]) ! j \<le> bv"
        using Cons.prems False by (auto simp: nth_append less_Suc_eq)
      show "\<forall>j<best. (pre @ [v]) ! j < bv"
        using Cons.prems by (auto simp: nth_append)
    qed
    with False show ?thesis by simp
  qed
qed

lemma np_argmax_first_max:
  assumes "np_argmax a = Inr k"
  shows "k < length a \<and> (\<forall>j<length a. a ! j \<le> a ! k) \<and> (\<forall>j<k. a ! j < a ! k)"
proof (cases a)
  case Nil
  with assms show ?thesis by (simp add: np_argmax_def)
next
  case (Cons v vs)
  with assms have k: "k = arg_scan (\<lambda>u w. u > w) vs 1 0 v"
    by (simp add: np_argmax_def)
  have "let r = arg_scan (\<lambda>u w. u > w) vs 1 0 v; a' = [v] @ vs
         in r < length a' \<and> (\<forall>j<length a'. a' ! j \<le> a' ! r) \<and> (\<forall>j<r. a' ! j < a' ! r)"
    by (rule arg_scan_max) simp_all
  with k Cons show ?thesis by (simp add: Let_def)
qed

lemma arg_scan_min:
  assumes "length pre = i" "best < i" "pre ! best = bv"
    and "\<forall>j<i. bv \<le> pre ! j" and "\<forall>j<best. bv < pre ! j"
  shows "let r = arg_scan (\<lambda>u w. u < w) vs i best bv; a = pre @ vs
         in r < length a \<and> (\<forall>j<length a. a ! r \<le> a ! j) \<and> (\<forall>j<r. a ! r < a ! j)"
  using assms
proof (induction vs arbitrary: pre i best bv)
  case Nil
  then show ?case by (simp add: Let_def)
next
  case (Cons v vs)
  show ?case
  proof (cases "v < bv")
    case True
    have "let r = arg_scan (\<lambda>u w. u < w) vs (Suc i) i v; a = (pre @ [v]) @ vs
         in r < length a \<and> (\<forall>j<length a. a ! r \<le> a ! j) \<and> (\<forall>j<r. a ! r < a ! j)"
    proof (rule Cons.IH)
      show "length (pre @ [v]) = Suc i" using Cons.prems by simp
      show "i < Suc i" by simp
      show "(pre @ [v]) ! i = v" using Cons.prems by (simp add: nth_append)
      show "\<forall>j<Suc i. v \<le> (pre @ [v]) ! j"
        using Cons.prems True by (auto simp: nth_append less_Suc_eq intro: order.trans less_imp_le)
      show "\<forall>j<i. v < (pre @ [v]) ! j"
        using Cons.prems True by (auto simp: nth_append intro: less_le_trans)
    qed
    with True show ?thesis by simp
  next
    case False
    have "let r = arg_scan (\<lambda>u w. u < w) vs (Suc i) best bv; a = (pre @ [v]) @ vs
         in r < length a \<and> (\<forall>j<length a. a ! r \<le> a ! j) \<and> (\<forall>j<r. a ! r < a ! j)"
    proof (rule Cons.IH)
      show "length (pre @ [v]) = Suc i" using Cons.prems by simp
      show "best < Suc i" using Cons.prems by simp
      show "(pre @ [v]) ! best = bv" using Cons.prems by (simp add: nth_append)
      show "\<forall>j<Suc i. bv \<le> (pre @ [v]) ! j"
        using Cons.prems False by (auto simp: nth_append less_Suc_eq)
      show "\<forall>j<best. bv < (pre @ [v]) ! j"
        using Cons.prems by (auto simp: nth_append)
    qed
    with False show ?thesis by simp
  qed
qed

lemma np_argmin_first_min:
  assumes "np_argmin a = Inr k"
  shows "k < length a \<and> (\<forall>j<length a. a ! k \<le> a ! j) \<and> (\<forall>j<k. a ! k < a ! j)"
proof (cases a)
  case Nil
  with assms show ?thesis by (simp add: np_argmin_def)
next
  case (Cons v vs)
  with assms have k: "k = arg_scan (\<lambda>u w. u < w) vs 1 0 v"
    by (simp add: np_argmin_def)
  have "let r = arg_scan (\<lambda>u w. u < w) vs 1 0 v; a' = [v] @ vs
         in r < length a' \<and> (\<forall>j<length a'. a' ! r \<le> a' ! j) \<and> (\<forall>j<r. a' ! r < a' ! j)"
    by (rule arg_scan_min) simp_all
  with k Cons show ?thesis by (simp add: Let_def)
qed

lemma np_argmax_nonempty: "a \<noteq> [] \<Longrightarrow> \<exists>k. np_argmax a = Inr k"
  by (cases a) (simp_all add: np_argmax_def)

lemma np_argmin_nonempty: "a \<noteq> [] \<Longrightarrow> \<exists>k. np_argmin a = Inr k"
  by (cases a) (simp_all add: np_argmin_def)

lemma extrema_loop_Inr:
  "extrema_loop x sx ax js acc = Inr res \<Longrightarrow>
     length res = length acc + length js \<and> take (length acc) res = acc \<and>
     (\<forall>j<length js. window_extreme x sx ax (js ! j) = Inr (res ! (length acc + j)))"
proof (induction js arbitrary: acc)
  case Nil
  then show ?case by simp
next
  case (Cons i rest)
  from Cons.prems obtain v where v: "window_extreme x sx ax i = Inr v"
    and rec: "extrema_loop x sx ax rest (acc @ [v]) = Inr res"
    by (auto simp: window_extreme_def split: sum.splits)
  from Cons.IH [OF rec] have len: "length res = Suc (length acc) + length rest"
    and tk: "take (Suc (length acc)) res = acc @ [v]"
    and nth: "\<forall>j<length rest. window_extreme x sx ax (rest ! j) = Inr (res ! (Suc (length acc) + j))"
    by simp_all
  have "take (length acc) res = take (length acc) (take (Suc (length acc)) res)"
    by simp
  also have "\<dots> = acc" by (simp only: tk) simp
  finally have tk': "take (length acc) res = acc" .
  have "res ! length acc = take (Suc (length acc)) res ! length acc" by simp
  also have "\<dots> = v" by (simp only: tk) simp
  finally have r0: "res ! length acc = v" .
  show ?case
  proof (intro conjI allI impI)
    show "length res = length acc + length (i # rest)" using len by simp
    show "take (length acc) res = acc" by (rule tk')
    fix j assume "j < length (i # rest)"
    then show "window_extreme x sx ax ((i # rest) ! j) = Inr (res ! (length acc + j))"
      using v r0 nth by (cases j) simp_all
  qed
qed

lemma extrema_loop_total:
  "(\<forall>i\<in>set js. \<exists>v. window_extreme x sx ax i = Inr v) \<Longrightarrow>
     \<exists>res. extrema_loop x sx ax js acc = Inr res"
proof (induction js arbitrary: acc)
  case Nil
  then show ?case by simp
next
  case (Cons i rest)
  then obtain v where v: "window_extreme x sx ax i = Inr v" by auto
  from Cons obtain res where "extrema_loop x sx ax rest (acc @ [v]) = Inr res"
    by (meson list.set_intros(2))
  with v show ?case
    by (auto simp: window_extreme_def split: sum.splits)
qed

lemma length_py_slice: "length (py_slice a b c) = min c (length a) - b"
  by (simp add: py_slice_def)

lemma nth_py_slice:
  assumes "k < length (py_slice a b c)"
  shows "py_slice a b c ! k = a ! (b + k)"
proof -
  from assms have "k < min c (length a) - b" by (simp add: length_py_slice)
  then have "b + k < c" "b + k < length a" by linarith+
  then show ?thesis by (simp add: py_slice_def)
qed

lemma window_extreme_bounds:
  assumes "window_extreme x sx ax i = Inr v"
  shows "ax ! i \<le> v \<and> v < ax ! (i + 1)"
proof -
  from assms obtain f k where f: "select_argextreme sx i = Inr f"
    and k: "f (py_slice x (ax ! i) (ax ! (i + 1))) = Inr k" and v: "v = ax ! i + k"
    by (auto simp: window_extreme_def split: sum.splits)
  from f have "f = np_argmax \<or> f = np_argmin"
    by (auto simp: select_argextreme_def split: if_splits)
  with k have "k < length (py_slice x (ax ! i) (ax ! (i + 1)))"
    using np_argmax_first_max np_argmin_first_min by blast
  then have "k < ax ! (i + 1) - ax ! i" by (simp add: length_py_slice)
  with v show ?thesis by simp
qed

lemma extrema_strict:
  assumes "rsp_findpeaks_extrema x = Inr extrema"
  shows "sorted_wrt (<) extrema"
proof -
  let ?ax = "allx x"
  from assms have loop: "extrema_loop x (startx x) ?ax [0..<length ?ax - 1] [] = Inr extrema"
    by (simp add: rsp_findpeaks_extrema_def split: if_splits)
  from extrema_loop_Inr [OF loop] have len: "length extrema = length ?ax - 1"
    and win: "\<forall>j<length ?ax - 1. window_extreme x (startx x) ?ax j = Inr (extrema ! j)"
    by simp_all
  have "extrema ! i < extrema ! j" if "i < j" "j < length extrema" for i j
  proof -
    from that len win have "extrema ! i < ?ax ! (i + 1)" "?ax ! j \<le> extrema ! j"
      using window_extreme_bounds by (metis less_trans)+
    moreover have "?ax ! (i + 1) \<le> ?ax ! j"
    proof -
      have "sorted ?ax" using allx_strict strict_sorted_iff by blast
      moreover have "i + 1 \<le> j" "j < length ?ax" using that len by simp_all
      ultimately show ?thesis by (rule sorted_nth_mono)
    qed
    ultimately show ?thesis by simp
  qed
  then show ?thesis by (simp add: sorted_wrt_iff_nth_less)
qed

lemma sorted_map_nth:
  assumes "sorted_wrt (<) (a :: nat list)" "sorted_wrt (<) idx" "\<forall>i\<in>set idx. i < length a"
  shows "sorted_wrt (<) (map (\<lambda>i. a ! i) idx)"
proof -
  have "sorted_wrt (\<lambda>i j. a ! i < a ! j) idx"
  proof (rule sorted_wrt_mono_rel [OF _ assms(2)])
    fix i j assume "i \<in> set idx" "j \<in> set idx" "i < j"
    with assms(1,3) show "a ! i < a ! j" by (simp add: sorted_wrt_nth_less)
  qed
  then show ?thesis by (simp add: sorted_wrt_map)
qed

lemma np_take_strict:
  "np_take a idx = Inr b \<Longrightarrow> sorted_wrt (<) (a :: nat list) \<Longrightarrow> sorted_wrt (<) idx \<Longrightarrow>
     sorted_wrt (<) b"
  by (auto simp: np_take_def sorted_map_nth split: if_splits)

lemma np_delete_strict:
  "np_delete a idx = Inr b \<Longrightarrow> sorted_wrt (<) (a :: nat list) \<Longrightarrow> sorted_wrt (<) b"
  by (auto simp: np_delete_def sorted_wrt_filter split: if_splits intro!: sorted_map_nth)

lemma np_delete_length_eq:
  "np_delete a idx = Inr a' \<Longrightarrow> np_delete b idx = Inr b' \<Longrightarrow> length a = length b \<Longrightarrow>
     length a' = length b'"
  by (auto simp: np_delete_def split: if_splits)

lemma np_take_length: "np_take a idx = Inr b \<Longrightarrow> length b = length idx"
  by (auto simp: np_take_def split: if_splits)

lemma amplitude_filter_strict:
  assumes "amplitude_filter x extrema am = Inr e1" "sorted_wrt (<) extrema"
  shows "sorted_wrt (<) e1"
  using assms
  by (auto simp: amplitude_filter_def bind_result_eq_Inr Let_def sorted_np_where
      elim: np_take_strict)

lemma alternation_repair_strict:
  assumes "alternation_repair x e1 = Inr (e2, a2)" "sorted_wrt (<) e1"
  shows "sorted_wrt (<) e2"
  using assms
  by (auto simp: alternation_repair_def bind_result_eq_Inr Let_def elim: np_delete_strict)

lemma alternation_repair_length:
  assumes "alternation_repair x e1 = Inr (e2, a2)"
  shows "length a2 = length e2"
proof -
  from assms obtain amps idx where "np_take x e1 = Inr amps"
    and "np_delete e1 idx = Inr e2" and "np_delete amps idx = Inr a2"
    by (auto simp: alternation_repair_def bind_result_eq_Inr Let_def)
  then show ?thesis
    using np_delete_length_eq np_take_length by metis
qed

lemma outliers_strict:
  "rsp_findpeaks_outliers x extrema am = Inr (e2, a2) \<Longrightarrow> sorted_wrt (<) extrema \<Longrightarrow>
     sorted_wrt (<) e2"
  by (auto simp: rsp_findpeaks_outliers_def bind_result_eq_Inr
      dest: amplitude_filter_strict alternation_repair_strict)

lemma outliers_length:
  "rsp_findpeaks_outliers x extrema am = Inr (e2, a2) \<Longrightarrow> length a2 = length e2"
  by (auto simp: rsp_findpeaks_outliers_def bind_result_eq_Inr dest: alternation_repair_length)

lemma sanitize_Inr:
  assumes "rsp_findpeaks_sanitize extrema amplitudes = Inr (peaks, troughs)"
    and "sorted_wrt (<) extrema"
  shows "\<exists>e. sorted_wrt (<) e \<and> peaks = every_second (tl e) \<and> troughs = every_second (butlast e)"
proof -
  define A where "A = (if amplitudes ! 0 > amplitudes ! 1 then np_delete extrema [0] else Inr extrema)"
  define B where "B = (\<lambda>e1 :: nat list. if amplitudes ! (length amplitudes - 1) < amplitudes ! (length amplitudes - 2)
           then (if e1 = [] then Inl IndexError else np_delete e1 [length e1 - 1])
           else Inr e1)"
  have "rsp_findpeaks_sanitize extrema amplitudes =
      (if length amplitudes < 2 then Inl IndexError
       else bind_result A (\<lambda>e1. bind_result (B e1)
         (\<lambda>e2. Inr (every_second (tl e2), every_second (butlast e2)))))"
    unfolding rsp_findpeaks_sanitize_def A_def B_def by (rule refl)
  with assms(1) have "bind_result A (\<lambda>e1. bind_result (B e1)
      (\<lambda>e2. Inr (every_second (tl e2), every_second (butlast e2)))) = Inr (peaks, troughs)"
    by (simp split: if_splits)
  then obtain e1 e2 where e1: "A = Inr e1" and e2: "B e1 = Inr e2"
    and pt: "peaks = every_second (tl e2)" "troughs = every_second (butlast e2)"
    unfolding bind_result_eq_Inr by auto
  from e1 assms(2) have "sorted_wrt (<) e1"
    unfolding A_def by (auto split: if_splits dest: np_delete_strict)
  with e2 have "sorted_wrt (<) e2"
    unfolding B_def by (auto split: if_splits dest: np_delete_strict)
  with pt show ?thesis by blast
qed

lemma every_second_split:
  "every_second (butlast (v # w # vs)) = v # every_second (butlast vs)"
  "every_second (tl (v # w # vs)) = w # every_second (tl vs)"
  by (cases vs; simp)+

lemma length_every_second_tl_butlast:
  "length (every_second (tl e)) = length e div 2 \<and> length (every_second (butlast e)) = length e div 2"
  by (induction e rule: every_second.induct) (simp_all only: every_second_split, simp_all)

lemma pairs_simps [simp]:
  "pairs [] ps = []" "pairs ts [] = []"
  "pairs (t # ts) (p # ps) = (t, Trough) # (p, Peak) # pairs ts ps"
  by (simp_all add: pairs_def)

lemma mset_pairs:
  "length ts = length ps \<Longrightarrow>
     mset (pairs ts ps) = mset (map (\<lambda>t. (t, Trough)) ts @ map (\<lambda>p. (p, Peak)) ps)"
  by (induction ts ps rule: list_induct2) simp_all

lemma snd_pairs:
  "length ts = length ps \<Longrightarrow> map snd (pairs ts ps) = concat (replicate (length ps) [Trough, Peak])"
  by (induction ts ps rule: list_induct2) simp_all

lemma fst_pairs_every_second:
  "map fst (pairs (every_second (butlast e)) (every_second (tl e))) = take (2 * (length e div 2)) e"
  by (induction e rule: every_second.induct) (simp_all only: every_second_split, simp_all)

lemma merged_pairs:
  assumes "sorted_wrt (<) e"
  shows "merged (every_second (tl e)) (every_second (butlast e)) =
           pairs (every_second (butlast e)) (every_second (tl e))"
proof -
  let ?ts = "every_second (butlast e)" and ?ps = "every_second (tl e)"
  let ?L = "map (\<lambda>t. (t, Trough)) ?ts @ map (\<lambda>p. (p, Peak)) ?ps"
  have len: "length ?ts = length ?ps" by (simp add: length_every_second_tl_butlast)
  have ms: "mset ?L = mset (pairs ?ts ?ps)" using mset_pairs [OF len] by simp
  have st: "sorted_wrt (<) (map fst (pairs ?ts ?ps))"
    using assms by (simp add: fst_pairs_every_second sorted_wrt_take)
  then have "distinct (map fst (pairs ?ts ?ps))" "sorted (map fst (pairs ?ts ?ps))"
    using strict_sorted_iff by blast+
  moreover have "mset (map fst ?L) = mset (map fst (pairs ?ts ?ps))"
    using ms by (metis mset_map)
  ultimately have "distinct (map fst ?L)"
    using mset_eq_imp_distinct_iff by blast
  then have "inj_on fst (set ?L)" by (simp only: distinct_map)
  from sort_key_inj_key_eq [OF ms this \<open>sorted (map fst (pairs ?ts ?ps))\<close>]
  show ?thesis by (simp add: merged_def)
qed

lemma khodadad_Inr:
  assumes "rsp_findpeaks_khodadad x am = Inr info"
  shows "\<exists>e. sorted_wrt (<) e \<and> RSP_Peaks info = every_second (tl e)
            \<and> RSP_Troughs info = every_second (butlast e)"
proof -
  from assms obtain e0 e1 a1 peaks troughs where
    e0: "rsp_findpeaks_extrema x = Inr e0"
    and e1: "rsp_findpeaks_outliers x e0 am = Inr (e1, a1)"
    and pt: "rsp_findpeaks_sanitize e1 a1 = Inr (peaks, troughs)"
    and info: "info = \<lparr>RSP_Peaks = peaks, RSP_Troughs = troughs\<rparr>"
    by (auto simp: rsp_findpeaks_khodadad_def bind_result_eq_Inr)
  from e0 have "sorted_wrt (<) e0" by (rule extrema_strict)
  with e1 have "sorted_wrt (<) e1" by (rule outliers_strict)
  with pt info show ?thesis using sanitize_Inr by fastforce
qed

lemma extrema_no_crossing:
  "risex x = [] \<or> fallx x = [] \<Longrightarrow> rsp_findpeaks_extrema x = Inl IndexError"
  by (auto simp: rsp_findpeaks_extrema_def)

lemma sanitize_length:
  assumes "rsp_findpeaks_sanitize extrema amplitudes = Inr (peaks, troughs)"
  shows "length peaks = length troughs"
proof -
  define A where "A = (if amplitudes ! 0 > amplitudes ! 1 then np_delete extrema [0] else Inr extrema)"
  define B where "B = (\<lambda>e1 :: nat list. if amplitudes ! (length amplitudes - 1) < amplitudes ! (length amplitudes - 2)
           then (if e1 = [] then Inl IndexError else np_delete e1 [length e1 - 1])
           else Inr e1)"
  have "rsp_findpeaks_sanitize extrema amplitudes =
      (if length amplitudes < 2 then Inl IndexError
       else bind_result A (\<lambda>e1. bind_result (B e1)
         (\<lambda>e2. Inr (every_second (tl e2), every_second (butlast e2)))))"
    unfolding rsp_findpeaks_sanitize_def A_def B_def by (rule refl)
  with assms have "bind_result A (\<lambda>e1. bind_result (B e1)
      (\<lambda>e2. Inr (every_second (tl e2), every_second (butlast e2)))) = Inr (peaks, troughs)"
    by (simp split: if_splits)
  then obtain e2 where "peaks = every_second (tl e2)" "troughs = every_second (butlast e2)"
    unfolding bind_result_eq_Inr by auto
  then show ?thesis by (simp add: length_every_second_tl_butlast)
qed

lemma khodadad_length:
  assumes "rsp_findpeaks_khodadad x am = Inr info"
  shows "length (RSP_Peaks info) = length (RSP_Troughs info)"
  using assms
  by (auto simp: rsp_findpeaks_khodadad_def bind_result_eq_Inr dest: sanitize_length)

lemma biosppy_length:
  assumes "rsp_findpeaks_biosppy x sr = Inr info"
  shows "length (RSP_Peaks info) = length (RSP_Troughs info)"
proof -
  from assms obtain e a peaks troughs peaks' troughs' where
    s: "rsp_findpeaks_sanitize e a = Inr (peaks, troughs)"
    and p: "np_delete peaks (outlier_idcs peaks sr) = Inr peaks'"
    and t: "np_delete troughs (outlier_idcs peaks sr) = Inr troughs'"
    and info: "info = \<lparr>RSP_Peaks = peaks', RSP_Troughs = troughs'\<rparr>"
    by (auto simp: rsp_findpeaks_biosppy_def bind_result_eq_Inr)
  from s have "length peaks = length troughs" by (rule sanitize_length)
  with p t have "length peaks' = length troughs'" by (rule np_delete_length_eq)
  with info show ?thesis by simp
qed

lemma Suc_mod2_neq0: "((i + 1) mod 2 \<noteq> 0) = even (i :: nat)"
  by presburger

lemma select_argextreme_rise:
  "select_argextreme (Some ''rise'') i = Inr (if even i then np_argmax else np_argmin)"
  by (simp only: select_argextreme_def Suc_mod2_neq0) simp

lemma select_argextreme_fall:
  "select_argextreme (Some ''fall'') i = Inr (if even i then np_argmin else np_argmax)"
  by (simp only: select_argextreme_def Suc_mod2_neq0) simp

lemma startx_rise_iff:
  assumes "risex x \<noteq> []" "fallx x \<noteq> []"
  shows "startx x = (if hd (risex x) < hd (fallx x) then Some ''rise'' else Some ''fall'')"
  using startx_bound [OF assms] by (auto simp: startx_def)

lemma sorted_every_second:
  "sorted_wrt (<) (xs :: nat list) \<Longrightarrow> sorted_wrt (<) (every_second xs)"
proof (induction xs rule: every_second.induct)
  case (3 v w vs)
  have "set (every_second vs) \<subseteq> set vs" for vs :: "nat list"
    by (induction vs rule: every_second.induct) auto
  with 3 show ?case by auto
qed simp_all

lemma sanitize_distinct:
  assumes "rsp_findpeaks_sanitize extrema amplitudes = Inr (peaks, troughs)"
    and "sorted_wrt (<) extrema"
  shows "distinct peaks \<and> distinct troughs"
proof -
  from sanitize_Inr [OF assms] obtain e where e: "sorted_wrt (<) e"
    and p: "peaks = every_second (tl e)" and t: "troughs = every_second (butlast e)" by blast
  have "sorted_wrt (<) (drop 1 e)" "sorted_wrt (<) (take (length e - 1) e)"
    using e by (rule sorted_wrt_drop, rule sorted_wrt_take)
  then have "sorted_wrt (<) (tl e)" "sorted_wrt (<) (butlast e)"
    by (simp_all add: drop_Suc butlast_conv_take)
  then have "sorted_wrt (<) peaks" "sorted_wrt (<) troughs"
    unfolding p t by (simp_all add: sorted_every_second)
  then show ?thesis using strict_sorted_iff by blast
qed

lemma set_outlier_idcs:
  "set (outlier_idcs peaks sr) =
     {i. i + 1 < length peaks \<and> rate_below (int (peaks ! (i + 1)) - int (peaks ! i)) sr}"
proof -
  have "np_diff (map int peaks) ! i = int (peaks ! (i + 1)) - int (peaks ! i)"
    if "i < length peaks - 1" for i
    using that by (simp add: nth_np_diff)
  then show ?thesis
    by (auto simp: outlier_idcs_def set_np_where length_np_diff)
qed

lemma np_delete_Inr:
  assumes "\<forall>i\<in>set idx. i < length a"
  shows "np_delete a idx = Inr (map (\<lambda>i. a ! i) (filter (\<lambda>i. i \<notin> set idx) [0..<length a]))"
  using assms by (simp add: np_delete_def)

lemma length_deleted:
  assumes "\<forall>i\<in>set idx. i < n"
  shows "length (filter (\<lambda>i. i \<notin> set idx) [0..<n]) = n - card (set idx)"
proof -
  have "set (filter (\<lambda>i. i \<notin> set idx) [0..<n]) = {..<n} - set idx" by auto
  moreover have "distinct (filter (\<lambda>i. i \<notin> set idx) [0..<n])" by simp
  ultimately have "length (filter (\<lambda>i. i \<notin> set idx) [0..<n]) = card ({..<n} - set idx)"
    by (metis distinct_card)
  also have "\<dots> = card {..<n} - card (set idx)"
    using assms by (intro card_Diff_subset) auto
  finally show ?thesis by simp
qed

lemma deleted_member:
  assumes "distinct a" "i < length a"
  shows "a ! i \<in> set (map (\<lambda>i. a ! i) (filter (\<lambda>i. i \<notin> set idx) [0..<length a])) \<longleftrightarrow> i \<notin> set idx"
  using assms by (auto simp: nth_eq_iff_index_eq)

lemma rate_below_nonzero:
  "sr \<noteq> 0 \<Longrightarrow> rate_below d sr = (real_of_int d / real_of_int sr < 17 / 10)"
  by (simp add: rate_below_def)

lemma select_method_lower:
  "lower m1 = lower m2 \<Longrightarrow>
     select_method dpt fp cleaned sr m1 am pd pp delta la =
     select_method dpt fp cleaned sr m2 am pd pp delta la"
  by (simp add: select_method_def)

lemma occurs_in_iff: "occurs_in p s \<longleftrightarrow> (\<exists>a b. s = a @ p @ b)"
proof (induction s)
  case Nil
  then show ?case by auto
next
  case (Cons c cs)
  show ?case
  proof
    assume "occurs_in p (c # cs)"
    then consider "take (length p) (c # cs) = p" | "occurs_in p cs" by auto
    then show "\<exists>a b. c # cs = a @ p @ b"
    proof cases
      case 1
      then have "c # cs = [] @ p @ drop (length p) (c # cs)"
        by (metis append_Nil append_take_drop_id)
      then show ?thesis by blast
    next
      case 2
      with Cons.IH obtain a b where "cs = a @ p @ b" by blast
      then have "c # cs = (c # a) @ p @ b" by simp
      then show ?thesis by blast
    qed
  next
    assume "\<exists>a b. c # cs = a @ p @ b"
    then obtain a b where ab: "c # cs = a @ p @ b" by blast
    show "occurs_in p (c # cs)"
    proof (cases a)
      case Nil
      with ab have "take (length p) (c # cs) = p" by simp
      then show ?thesis by simp
    next
      case (Cons a0 as)
      with ab have "cs = as @ p @ b" by simp
      with Cons.IH have "occurs_in p cs" by blast
      then show ?thesis by simp
    qed
  qed
qed

lemma length_np_where_le: "length (np_where c) \<le> length c"
proof -
  have "length (np_where c) \<le> length [0..<length c]"
    unfolding np_where_def by (rule length_filter_le)
  then show ?thesis by simp
qed

lemma amplitude_filter_shorter:
  assumes "amplitude_filter x extrema am = Inr e1" "extrema \<noteq> []"
  shows "length e1 < length extrema"
proof -
  from assms(1) obtain amps where a: "np_take x extrema = Inr amps"
    and e1: "np_take extrema (np_where (map (\<lambda>v. v > np_median (map abs (np_diff amps)) * am)
               (map abs (np_diff amps)))) = Inr e1"
    by (auto simp: amplitude_filter_def bind_result_eq_Inr Let_def)
  from e1 have "length e1 \<le> length (np_diff amps)"
    using length_np_where_le [of "map (\<lambda>v. v > np_median (map abs (np_diff amps)) * am)
               (map abs (np_diff amps))"]
    by (simp add: np_take_length)
  also have "\<dots> = length extrema - 1"
    using a by (simp add: length_np_diff np_take_length)
  finally show ?thesis using assms(2) by (cases extrema) simp_all
qed

lemma np_delete_nothing: "np_delete a [] = Inr a"
  by (simp add: np_delete_def map_nth)

lemma alternation_repair_noop:
  assumes "np_take x e = Inr amps"
    and "\<forall>i. i + 1 < length amps \<longrightarrow>
           (if even i then amps ! i < amps ! (i + 1) else amps ! (i + 1) < amps ! i)"
  shows "alternation_repair x e = Inr (e, amps)"
proof -
  let ?d = "map sgn (np_diff amps)"
  let ?s = "map2 (\<lambda>u v. u + v) (butlast ?d) (tl ?d)"
  have d: "?d ! i = (if even i then 1 else - 1)" if "i < length amps - 1" for i
  proof -
    from that have "i + 1 < length amps" by simp
    with assms(2) have "if even i then amps ! i < amps ! (i + 1) else amps ! (i + 1) < amps ! i"
      by blast
    with that show ?thesis
      by (auto simp: length_np_diff nth_np_diff sgn_if split: if_splits)
  qed
  have "?s ! i = 0" if "i < length ?s" for i
  proof -
    from that have i: "i < length amps - 1 - 1" by (simp add: length_np_diff)
    then have "?s ! i = ?d ! i + ?d ! (i + 1)"
      by (simp add: length_np_diff nth_butlast nth_tl)
    also have "\<dots> = 0" using i d [of i] d [of "i + 1"] by simp
    finally show ?thesis .
  qed
  then have "np_where (map (\<lambda>v. v \<noteq> 0) ?s) = []"
    by (auto simp: np_where_def filter_empty_conv)
  with assms(1) show ?thesis
    by (simp add: alternation_repair_def Let_def np_delete_nothing)
qed

lemma risex_empty_iff:
  "risex x = [] \<longleftrightarrow> (\<forall>i. Suc i < length x \<longrightarrow> \<not> (x ! i < 0 \<and> 0 < x ! Suc i))"
proof -
  have "risex x = [] \<longleftrightarrow> set (risex x) = {}" by simp
  then show ?thesis unfolding set_risex by auto
qed

lemma fallx_empty_iff:
  "fallx x = [] \<longleftrightarrow> (\<forall>i. Suc i < length x \<longrightarrow> \<not> (0 < x ! i \<and> x ! Suc i < 0))"
proof -
  have "fallx x = [] \<longleftrightarrow> set (fallx x) = {}" by simp
  then show ?thesis unfolding set_fallx by auto
qed

lemma nondecreasing_no_fall: "sorted x \<Longrightarrow> fallx x = []"
  unfolding fallx_empty_iff
proof (intro allI impI)
  fix i assume "sorted x" "Suc i < length x"
  then have "x ! i \<le> x ! Suc i" by (simp add: sorted_nth_mono)
  then show "\<not> (0 < x ! i \<and> x ! Suc i < 0)" by simp
qed

lemma nonincreasing_no_rise: "sorted (rev x) \<Longrightarrow> risex x = []"
  unfolding risex_empty_iff
proof (intro allI impI)
  fix i assume "sorted (rev x)" "Suc i < length x"
  then have "x ! Suc i \<le> x ! i" by (simp add: sorted_rev_nth_mono)
  then show "\<not> (x ! i < 0 \<and> 0 < x ! Suc i)" by simp
qed

lemma one_sided_no_crossing:
  "(\<forall>v\<in>set x. 0 \<le> v) \<or> (\<forall>v\<in>set x. v \<le> 0) \<Longrightarrow> risex x = [] \<and> fallx x = []"
  unfolding risex_empty_iff fallx_empty_iff
  by (metis Suc_lessD leD nth_mem)

lemma allx_bound: "i \<in> set (allx x) \<Longrightarrow> Suc i < length x"
  by (auto simp: allx_def set_risex set_fallx)

lemma window_nonempty:
  assumes "Suc i < length (allx x)"
  shows "py_slice x (allx x ! i) (allx x ! (i + 1)) \<noteq> []"
proof -
  have "allx x ! i < allx x ! (i + 1)"
    using allx_strict [of x] assms by (simp add: sorted_wrt_nth_less)
  moreover have "allx x ! (i + 1) \<in> set (allx x)" using assms by simp
  then have "allx x ! (i + 1) < length x" using allx_bound by fastforce
  ultimately have "0 < length (py_slice x (allx x ! i) (allx x ! (i + 1)))"
    by (simp add: length_py_slice)
  then show ?thesis by blast
qed

lemma extrema_total:
  assumes "risex x \<noteq> []" "fallx x \<noteq> []"
  shows "\<exists>extrema. rsp_findpeaks_extrema x = Inr extrema"
proof -
  have "\<exists>v. window_extreme x (startx x) (allx x) i = Inr v"
    if "i \<in> set [0..<length (allx x) - 1]" for i
  proof -
    from that have i: "Suc i < length (allx x)" by simp
    let ?w = "py_slice x (allx x ! i) (allx x ! (i + 1))"
    from startx_bound [OF assms] have "\<exists>f. select_argextreme (startx x) i = Inr f \<and>
        (f = np_argmax \<or> f = np_argmin)"
      by (auto simp: select_argextreme_rise select_argextreme_fall)
    then obtain f where f: "select_argextreme (startx x) i = Inr f"
      and "f = np_argmax \<or> f = np_argmin" by blast
    moreover have "?w \<noteq> []" using i by (rule window_nonempty)
    ultimately obtain k where "f ?w = Inr k"
      using np_argmax_nonempty np_argmin_nonempty by blast
    with f show ?thesis by (simp add: window_extreme_def)
  qed
  then have "\<exists>res. extrema_loop x (startx x) (allx x) [0..<length (allx x) - 1] [] = Inr res"
    by (intro extrema_loop_total) blast
  with assms show ?thesis by (simp add: rsp_findpeaks_extrema_def)
qed


text \<open>
  Order by position: the troughs and peaks that the khodadad2018 pipeline returns interleave
  by sample index, \<open>troughs[0] < peaks[0] < troughs[1] < \<dots>\<close>, whatever the amplitudes at
  these positions are.  This follows from the parity split of a strictly increasing sequence
  alone.
\<close>

lemma khodadad_index_order:
  assumes "rsp_findpeaks_khodadad x am = Inr info"
  shows "sorted_wrt (<) (map fst (merged (RSP_Peaks info) (RSP_Troughs info))) \<and>
         map snd (merged (RSP_Peaks info) (RSP_Troughs info)) =
           concat (replicate (length (RSP_Peaks info)) [Trough, Peak])"
proof -
  from khodadad_Inr [OF assms] obtain e where e: "sorted_wrt (<) e"
    and p: "RSP_Peaks info = every_second (tl e)"
    and t: "RSP_Troughs info = every_second (butlast e)" by blast
  have m: "merged (RSP_Peaks info) (RSP_Troughs info) = pairs (RSP_Troughs info) (RSP_Peaks info)"
    unfolding p t using e by (rule merged_pairs)
  have len: "length (RSP_Troughs info) = length (RSP_Peaks info)"
    by (simp add: p t length_every_second_tl_butlast)
  show ?thesis
    unfolding m using e len
    by (simp add: snd_pairs) (simp add: p t fst_pairs_every_second sorted_wrt_take)
qed


section \<open>The claims\<close>

subsection \<open>C1: trough and peak alternate in the merged output\<close>

text \<open>
  C1.  The claim is that the returned troughs and peaks, merged by sample index, alternate
  between a minimum and a maximum, starting with a trough and ending with a peak.  On the
  example signal the locator finds the extrema 4, 7, \<dots>, 55, with amplitudes 40 and -40
  except 20, -10, 10, -2, 20 at 22, 25, 28, 31, 34.  The amplitude test (median difference
  80, threshold 24) drops 25, 28, 31 and the last extremum, which leaves the two extrema of
  amplitude 20 side by side; the alternation repair reads the zero difference between them
  as a break on either side and removes both in its single pass, so that the minima at 19
  and 37 become neighbours.  The sanitizer then splits by parity: the pipeline returns 37,
  43 and the last landmark 49 as peaks although they are minima (-40), and 40 and 46 as
  troughs although they are maxima (40).
\<close>

theorem alternation_broken:
  "rsp_findpeaks_extrema two_shallow_breaths =
     Inr [4, 7, 10, 13, 16, 19, 22, 25, 28, 31, 34, 37, 40, 43, 46, 49, 52, 55] \<and>
   amplitude_filter two_shallow_breaths
     [4, 7, 10, 13, 16, 19, 22, 25, 28, 31, 34, 37, 40, 43, 46, 49, 52, 55] (3 / 10) =
     Inr [4, 7, 10, 13, 16, 19, 22, 34, 37, 40, 43, 46, 49, 52] \<and>
   alternation_repair two_shallow_breaths [4, 7, 10, 13, 16, 19, 22, 34, 37, 40, 43, 46, 49, 52] =
     Inr ([4, 7, 10, 13, 16, 19, 37, 40, 43, 46, 49, 52],
          [40, - 40, 40, - 40, 40, - 40, - 40, 40, - 40, 40, - 40, 40]) \<and>
   rsp_findpeaks_khodadad two_shallow_breaths (3 / 10) =
     Inr \<lparr>RSP_Peaks = [10, 16, 37, 43, 49], RSP_Troughs = [7, 13, 19, 40, 46]\<rparr> \<and>
   np_take two_shallow_breaths [10, 16, 37, 43, 49] = Inr [40, 40, - 40, - 40, - 40] \<and>
   np_take two_shallow_breaths [7, 13, 19, 40, 46] = Inr [- 40, - 40, - 40, 40, 40]"
  by code_simp

theorem alternation_broken_witness:
  "\<exists>info. rsp_findpeaks_khodadad two_shallow_breaths (3 / 10) = Inr info \<and>
      two_shallow_breaths ! (RSP_Peaks info ! 2) \<le> two_shallow_breaths ! (RSP_Troughs info ! 2) \<and>
      two_shallow_breaths ! (RSP_Peaks info ! 3) < two_shallow_breaths ! (RSP_Troughs info ! 3) \<and>
      two_shallow_breaths ! last (RSP_Peaks info) < two_shallow_breaths ! last (RSP_Troughs info)"
proof -
  have "two_shallow_breaths ! 37 \<le> two_shallow_breaths ! 19"
    "two_shallow_breaths ! 43 < two_shallow_breaths ! 40"
    "two_shallow_breaths ! 49 < two_shallow_breaths ! 46"
    by (simp_all add: two_shallow_breaths_def)
  with alternation_broken show ?thesis by simp
qed


subsection \<open>C2: as many peaks as troughs\<close>

text \<open>
  C2.  Whenever the entry point returns for the method khodadad2018 (or its alias khodadad) or
  biosppy, in any capitalisation, the returned peaks and troughs have the same length.
\<close>

theorem equal_length:
  assumes "rsp_findpeaks detect_peaks_troughs find_peaks rsp_cleaned sampling_rate method
             amplitude_min peak_distance peak_prominence delta lookahead = Inr info"
    and "lower method \<in> {''khodadad'', ''khodadad2018'', ''biosppy''}"
  shows "length (RSP_Peaks info) = length (RSP_Troughs info)"
proof -
  from assms(1) obtain cleaned where
    sel: "select_method detect_peaks_troughs find_peaks cleaned sampling_rate method
            amplitude_min peak_distance peak_prominence delta lookahead = Inr info"
    by (auto simp: rsp_findpeaks_def bind_result_eq_Inr)
  from assms(2) consider "lower method \<in> set [''khodadad'', ''khodadad2018'']"
    | "lower method = ''biosppy''" by auto
  then show ?thesis
  proof cases
    case 1
    with sel have "rsp_findpeaks_khodadad cleaned amplitude_min = Inr info"
      by (simp add: select_method_def Let_def)
    then show ?thesis by (rule khodadad_length)
  next
    case 2
    with sel have "rsp_findpeaks_biosppy cleaned sampling_rate = Inr info"
      by (simp add: select_method_def Let_def)
    then show ?thesis by (rule biosppy_length)
  qed
qed

theorem equal_length_witness:
  "rsp_findpeaks no_detect_peaks_troughs no_find_peaks
     (ArrayLike [1, -1, 1, 1, -1, -1, 1, 1, -1, -2, 1, 3, -1, -4, 2, -1])
     3 ''BioSPPy'' (3 / 10) (8 / 10) (5 / 10) 0 200 = Inr \<lparr>RSP_Peaks = [10], RSP_Troughs = [8]\<rparr> \<and>
   lower ''BioSPPy'' \<in> {''khodadad'', ''khodadad2018'', ''biosppy''} \<and>
   length [10 :: nat] = length [8 :: nat]"
proof -
  have h1: "rsp_findpeaks no_detect_peaks_troughs no_find_peaks
     (ArrayLike [1, -1, 1, 1, -1, -1, 1, 1, -1, -2, 1, 3, -1, -4, 2, -1])
     3 ''BioSPPy'' (3 / 10) (8 / 10) (5 / 10) 0 200 = Inr \<lparr>RSP_Peaks = [10], RSP_Troughs = [8]\<rparr>"
    by code_simp
  have h2: "lower ''BioSPPy'' \<in> {''khodadad'', ''khodadad2018'', ''biosppy''}"
    by code_simp
  from equal_length [OF h1 h2] h1 h2 show ?thesis by simp
qed


subsection \<open>C3: the amplitude test at threshold zero\<close>

text \<open>
  C3.  The claim is that with \<open>amplitude_min = 0\<close> every extremum passes the amplitude
  test.  On the signal below the locator finds the extrema 1, 3 and 5, whose amplitudes 1, -1
  and 1 differ by 2 from one to the next; the amplitude test with threshold 0 keeps 1 and 3
  only.  The positions that pass index the array of differences, which is one shorter than
  the extrema, so the last extremum is never kept (lemma \<open>amplitude_filter_shorter\<close>).
\<close>

theorem amplitude_min_zero_drops_last:
  "rsp_findpeaks_extrema [-1, 1, 1, -1, -1, 1, 1, -1] = Inr [1, 3, 5] \<and>
   np_take [-1, 1, 1, -1, -1, 1, 1, -1 :: real] [1, 3, 5] = Inr [1, -1, 1] \<and>
   map abs (np_diff [1, -1, 1 :: real]) = [2, 2] \<and>
   amplitude_filter [-1, 1, 1, -1, -1, 1, 1, -1] [1, 3, 5] 0 = Inr [1, 3]"
  by code_simp

theorem amplitude_min_zero_drops_last_witness:
  "amplitude_filter [-1, 1, 1, -1, -1, 1, 1, -1] [1, 3, 5] 0 \<noteq> Inr [1, 3, 5]"
  using amplitude_min_zero_drops_last by simp


subsection \<open>C4: running the filter and the sanitizer again\<close>

text \<open>
  C4.  The claim is that the outlier filter followed by the sanitizer, at
  \<open>amplitude_min = 0\<close>, returns an already sanitized sequence unchanged.  The pipeline
  returns the troughs 4, 8 and the peaks 6, 10 on the signal below, with amplitudes -1, 1, -1,
  1.  Run again on the extrema 4, 6, 8, 10, the filter loses the last peak and the sanitizer
  then drops the trough left at the end: one trough and one peak remain.  The alternation
  repair alone does leave an alternating sequence unchanged (lemma
  \<open>alternation_repair_noop\<close>).
\<close>

theorem rerun_not_idempotent:
  "rsp_findpeaks_khodadad [1, -1, 1, 1, -1, -1, 1, 1, -1, -2, 1, 3, -1, -4, 2, -1] (3 / 10)
     = Inr \<lparr>RSP_Peaks = [6, 10], RSP_Troughs = [4, 8]\<rparr> \<and>
   np_take [1, -1, 1, 1, -1, -1, 1, 1, -1, -2, 1, 3, -1, -4, 2, -1 :: real] [4, 6, 8, 10]
     = Inr [-1, 1, -1, 1] \<and>
   rsp_findpeaks_outliers [1, -1, 1, 1, -1, -1, 1, 1, -1, -2, 1, 3, -1, -4, 2, -1] [4, 6, 8, 10] 0
     = Inr ([4, 6, 8], [-1, 1, -1]) \<and>
   rsp_findpeaks_sanitize [4, 6, 8] [-1, 1, -1] = Inr ([6], [4])"
  by code_simp

theorem rerun_not_idempotent_witness:
  "bind_result
     (rsp_findpeaks_outliers [1, -1, 1, 1, -1, -1, 1, 1, -1, -2, 1, 3, -1, -4, 2, -1] [4, 6, 8, 10] 0)
     (\<lambda>(extrema, amplitudes). rsp_findpeaks_sanitize extrema amplitudes) \<noteq> Inr ([6, 10], [4, 8])"
  using rerun_not_idempotent by simp


subsection \<open>C5: maximum and minimum by window position and starting phase\<close>

text \<open>
  C5.  Whenever the locator returns, there is one extremum for each pair of consecutive zero
  crossings, and the \<open>i\<close>-th extremum (counting from 0) is the start of the \<open>i\<close>-th
  window plus the position, within the window \<open>rsp_cleaned[allx[i]:allx[i+1]]\<close>, of the
  first maximum when the phase is rise (the first rising crossing precedes the first falling
  one) and \<open>i\<close> is even (the 1st, 3rd, ... window) or the phase is fall and \<open>i\<close> is
  odd, and of the first minimum otherwise.  One of the two phases always holds, and the
  locator does return whenever the signal has a rising and a falling crossing (lemma
  \<open>extrema_total\<close>).
\<close>

theorem extrema_by_window:
  assumes "rsp_findpeaks_extrema x = Inr extrema"
  shows "length extrema = length (allx x) - 1 \<and>
         (hd (risex x) < hd (fallx x) \<or> hd (fallx x) < hd (risex x)) \<and>
         (\<forall>i<length extrema.
            \<exists>k. extrema ! i = allx x ! i + k \<and>
                (let w = py_slice x (allx x ! i) (allx x ! (i + 1))
                 in k < length w \<and>
                    (if (hd (risex x) < hd (fallx x)) = even i
                     then np_argmax w = Inr k \<and> (\<forall>j<length w. w ! j \<le> w ! k) \<and> (\<forall>j<k. w ! j < w ! k)
                     else np_argmin w = Inr k \<and> (\<forall>j<length w. w ! k \<le> w ! j) \<and> (\<forall>j<k. w ! k < w ! j))))"
proof -
  let ?ax = "allx x"
  from assms have ne: "risex x \<noteq> []" "fallx x \<noteq> []"
    by (auto simp: rsp_findpeaks_extrema_def split: if_splits)
  with assms have loop: "extrema_loop x (startx x) ?ax [0..<length ?ax - 1] [] = Inr extrema"
    by (simp add: rsp_findpeaks_extrema_def)
  from extrema_loop_Inr [OF loop] have len: "length extrema = length ?ax - 1"
    and win: "\<forall>j<length ?ax - 1. window_extreme x (startx x) ?ax j = Inr (extrema ! j)"
    by simp_all
  have sx: "startx x = (if hd (risex x) < hd (fallx x) then Some ''rise'' else Some ''fall'')"
    using ne by (rule startx_rise_iff)
  have ph: "hd (risex x) < hd (fallx x) \<or> hd (fallx x) < hd (risex x)"
    using startx_bound [OF ne] by (auto simp: startx_def split: if_splits)
  have per: "\<exists>k. extrema ! i = ?ax ! i + k \<and>
                (let w = py_slice x (?ax ! i) (?ax ! (i + 1))
                 in k < length w \<and>
                    (if (hd (risex x) < hd (fallx x)) = even i
                     then np_argmax w = Inr k \<and> (\<forall>j<length w. w ! j \<le> w ! k) \<and> (\<forall>j<k. w ! j < w ! k)
                     else np_argmin w = Inr k \<and> (\<forall>j<length w. w ! k \<le> w ! j) \<and> (\<forall>j<k. w ! k < w ! j)))"
    if i: "i < length extrema" for i
  proof -
    let ?w = "py_slice x (?ax ! i) (?ax ! (i + 1))"
    from i len win have we: "window_extreme x (startx x) ?ax i = Inr (extrema ! i)" by simp
    show ?thesis
    proof (cases "(hd (risex x) < hd (fallx x)) = even i")
      case True
      then have "select_argextreme (startx x) i = Inr np_argmax"
        by (auto simp: sx select_argextreme_rise select_argextreme_fall)
      with we obtain k where k: "np_argmax ?w = Inr k" and e: "extrema ! i = ?ax ! i + k"
        by (auto simp: window_extreme_def split: sum.splits)
      from np_argmax_first_max [OF k] k e True show ?thesis
        by (auto simp: Let_def)
    next
      case False
      then have "select_argextreme (startx x) i = Inr np_argmin"
        by (auto simp: sx select_argextreme_rise select_argextreme_fall)
      with we obtain k where k: "np_argmin ?w = Inr k" and e: "extrema ! i = ?ax ! i + k"
        by (auto simp: window_extreme_def split: sum.splits)
      from np_argmin_first_min [OF k] k e False show ?thesis
        by (auto simp: Let_def)
    qed
  qed
  from len ph per show ?thesis by blast
qed

theorem extrema_by_window_witness:
  "rsp_findpeaks_extrema [-1, 1, 1, -1, -1, 1, 1, -1] = Inr [1, 3, 5] \<and>
   length [1, 3, 5 :: nat] = length (allx [-1, 1, 1, -1, -1, 1, 1, -1]) - 1 \<and>
   (hd (risex [-1, 1, 1, -1, -1, 1, 1, -1]) < hd (fallx [-1, 1, 1, -1, -1, 1, 1, -1]) \<or>
    hd (fallx [-1, 1, 1, -1, -1, 1, 1, -1]) < hd (risex [-1, 1, 1, -1, -1, 1, 1, -1]))"
proof -
  have h: "rsp_findpeaks_extrema [-1, 1, 1, -1, -1, 1, 1, -1] = Inr [1, 3, 5]" by code_simp
  from extrema_by_window [OF h] h show ?thesis by blast
qed


subsection \<open>C6: a signal without a rising or without a falling zero crossing\<close>

text \<open>
  C6.  When the signal has no rising zero crossing (no sample below zero followed by one
  above zero) or no falling zero crossing, the extrema locator raises (\<open>IndexError\<close>, from
  \<open>risex[0]\<close> or \<open>fallx[0]\<close>), and so do the khodadad2018 and the biosppy pipeline,
  which return nothing.  Signals that are nowhere negative, nowhere positive, nondecreasing or
  nonincreasing are of this kind (lemmas \<open>one_sided_no_crossing\<close>,
  \<open>nondecreasing_no_fall\<close>, \<open>nonincreasing_no_rise\<close>).
\<close>

theorem no_crossing_fails:
  assumes "(\<forall>i. Suc i < length x \<longrightarrow> \<not> (x ! i < 0 \<and> 0 < x ! Suc i)) \<or>
           (\<forall>i. Suc i < length x \<longrightarrow> \<not> (0 < x ! i \<and> x ! Suc i < 0))"
  shows "rsp_findpeaks_extrema x = Inl IndexError \<and>
         rsp_findpeaks_khodadad x amplitude_min = Inl IndexError \<and>
         rsp_findpeaks_biosppy x sampling_rate = Inl IndexError"
proof -
  from assms have "risex x = [] \<or> fallx x = []"
    by (simp only: risex_empty_iff fallx_empty_iff)
  then have "rsp_findpeaks_extrema x = Inl IndexError" by (rule extrema_no_crossing)
  then show ?thesis
    by (simp add: rsp_findpeaks_khodadad_def rsp_findpeaks_biosppy_def)
qed

theorem no_crossing_fails_witness:
  "((\<forall>i. Suc i < length [- 3, - 1, 2, 5 :: real] \<longrightarrow>
        \<not> ([- 3, - 1, 2, 5 :: real] ! i < 0 \<and> 0 < [- 3, - 1, 2, 5 :: real] ! Suc i)) \<or>
    (\<forall>i. Suc i < length [- 3, - 1, 2, 5 :: real] \<longrightarrow>
        \<not> (0 < [- 3, - 1, 2, 5 :: real] ! i \<and> [- 3, - 1, 2, 5 :: real] ! Suc i < 0))) \<and>
   rsp_findpeaks_extrema [- 3, - 1, 2, 5] = Inl IndexError \<and>
   rsp_findpeaks_khodadad [- 3, - 1, 2, 5] (3 / 10) = Inl IndexError \<and>
   rsp_findpeaks_biosppy [- 3, - 1, 2, 5] 1000 = Inl IndexError"
proof -
  have "fallx [- 3, - 1, 2, 5] = []" by code_simp
  then have "\<forall>i. Suc i < length [- 3, - 1, 2, 5 :: real] \<longrightarrow>
        \<not> (0 < [- 3, - 1, 2, 5 :: real] ! i \<and> [- 3, - 1, 2, 5 :: real] ! Suc i < 0)"
    by (simp only: fallx_empty_iff)
  then have h: "(\<forall>i. Suc i < length [- 3, - 1, 2, 5 :: real] \<longrightarrow>
        \<not> ([- 3, - 1, 2, 5 :: real] ! i < 0 \<and> 0 < [- 3, - 1, 2, 5 :: real] ! Suc i)) \<or>
    (\<forall>i. Suc i < length [- 3, - 1, 2, 5 :: real] \<longrightarrow>
        \<not> (0 < [- 3, - 1, 2, 5 :: real] ! i \<and> [- 3, - 1, 2, 5 :: real] ! Suc i < 0))"
    by (rule disjI2)
  from no_crossing_fails [OF h, of "3 / 10" 1000] h show ?thesis by blast
qed


subsection \<open>C7: the rate filter of the biosppy variant\<close>

text \<open>
  C7.  Let the sanitizer return \<open>peaks\<close> and \<open>troughs\<close> in the biosppy pipeline, with
  a sampling rate other than 0.  Then the pipeline returns, and for every pair of adjacent
  peaks \<open>i\<close>, \<open>i + 1\<close>: when the interval divided by the sampling rate is below 1.7,
  peak \<open>i\<close> (the earlier of the two) and trough \<open>i\<close> are absent from the result,
  otherwise both are present.  The result has as many peaks, and as many troughs, fewer
  than the sanitizer returned as there are such pairs.
\<close>

theorem rate_filter_drops_pairs:
  assumes "rsp_findpeaks_extrema x = Inr e0"
    and "rsp_findpeaks_outliers x e0 0 = Inr (e, a)"
    and "rsp_findpeaks_sanitize e a = Inr (peaks, troughs)"
    and "sampling_rate \<noteq> 0"
  shows "\<exists>info. rsp_findpeaks_biosppy x sampling_rate = Inr info \<and>
     (\<forall>i. i + 1 < length peaks \<longrightarrow>
        (if real_of_int (int (peaks ! (i + 1)) - int (peaks ! i)) / real_of_int sampling_rate < 17 / 10
         then peaks ! i \<notin> set (RSP_Peaks info) \<and> troughs ! i \<notin> set (RSP_Troughs info)
         else peaks ! i \<in> set (RSP_Peaks info) \<and> troughs ! i \<in> set (RSP_Troughs info))) \<and>
     length (RSP_Peaks info) = length peaks - card {i. i + 1 < length peaks \<and>
        real_of_int (int (peaks ! (i + 1)) - int (peaks ! i)) / real_of_int sampling_rate < 17 / 10} \<and>
     length (RSP_Troughs info) = length troughs - card {i. i + 1 < length peaks \<and>
        real_of_int (int (peaks ! (i + 1)) - int (peaks ! i)) / real_of_int sampling_rate < 17 / 10}"
proof -
  let ?idx = "outlier_idcs peaks sampling_rate"
  let ?D = "{i. i + 1 < length peaks \<and>
        real_of_int (int (peaks ! (i + 1)) - int (peaks ! i)) / real_of_int sampling_rate < 17 / 10}"
  let ?keep = "filter (\<lambda>i. i \<notin> set ?idx) [0..<length peaks]"
  let ?info = "\<lparr>RSP_Peaks = map (\<lambda>i. peaks ! i) ?keep, RSP_Troughs = map (\<lambda>i. troughs ! i) ?keep\<rparr>"
  have len: "length peaks = length troughs" using assms(3) by (rule sanitize_length)
  have "sorted_wrt (<) e0" using assms(1) by (rule extrema_strict)
  with assms(2) have "sorted_wrt (<) e" by (rule outliers_strict)
  with assms(3) have dist: "distinct peaks" "distinct troughs"
    using sanitize_distinct by blast+
  have D: "set ?idx = ?D"
    using assms(4) by (simp add: set_outlier_idcs rate_below_nonzero)
  then have bound: "\<forall>i\<in>set ?idx. i < length peaks" by auto
  have p: "np_delete peaks ?idx = Inr (map (\<lambda>i. peaks ! i) ?keep)"
    using bound by (rule np_delete_Inr)
  have t: "np_delete troughs ?idx = Inr (map (\<lambda>i. troughs ! i) ?keep)"
    using bound np_delete_Inr [of ?idx troughs] by (simp add: len)
  have run: "rsp_findpeaks_biosppy x sampling_rate = Inr ?info"
    using assms(1-3) p t by (simp add: rsp_findpeaks_biosppy_def)
  have mem: "(peaks ! i \<in> set (RSP_Peaks ?info)) = (i \<notin> ?D) \<and>
             (troughs ! i \<in> set (RSP_Troughs ?info)) = (i \<notin> ?D)" if "i + 1 < length peaks" for i
  proof -
    from that have i: "i < length peaks" "i < length troughs" using len by simp_all
    show ?thesis
      using deleted_member [OF dist(1) i(1), of ?idx] deleted_member [OF dist(2) i(2), of ?idx]
      by (simp add: D len)
  qed
  have l1: "length (RSP_Peaks ?info) = length peaks - card ?D"
    using length_deleted [OF bound] by (simp add: D)
  have l2: "length (RSP_Troughs ?info) = length troughs - card ?D"
    using length_deleted [OF bound] by (simp add: D len)
  have "\<forall>i. i + 1 < length peaks \<longrightarrow>
        (if real_of_int (int (peaks ! (i + 1)) - int (peaks ! i)) / real_of_int sampling_rate < 17 / 10
         then peaks ! i \<notin> set (RSP_Peaks ?info) \<and> troughs ! i \<notin> set (RSP_Troughs ?info)
         else peaks ! i \<in> set (RSP_Peaks ?info) \<and> troughs ! i \<in> set (RSP_Troughs ?info))"
    using mem by auto
  with run l1 l2 show ?thesis by blast
qed

theorem rate_filter_drops_pairs_witness:
  "rsp_findpeaks_extrema [1, -1, 1, 1, -1, -1, 1, 1, -1, -2, 1, 3, -1, -4, 2, -1]
      = Inr [0, 2, 4, 6, 8, 10, 12, 13] \<and>
   rsp_findpeaks_outliers [1, -1, 1, 1, -1, -1, 1, 1, -1, -2, 1, 3, -1, -4, 2, -1]
      [0, 2, 4, 6, 8, 10, 12, 13] 0 = Inr ([2, 4, 6, 8, 10, 12], [1, -1, 1, -1, 1, -1]) \<and>
   rsp_findpeaks_sanitize [2, 4, 6, 8, 10, 12] [1, -1, 1, -1, 1, -1] = Inr ([6, 10], [4, 8]) \<and>
   (3 :: int) \<noteq> 0 \<and>
   rsp_findpeaks_biosppy [1, -1, 1, 1, -1, -1, 1, 1, -1, -2, 1, 3, -1, -4, 2, -1] 3
      = Inr \<lparr>RSP_Peaks = [10], RSP_Troughs = [8]\<rparr>"
proof -
  have h1: "rsp_findpeaks_extrema [1, -1, 1, 1, -1, -1, 1, 1, -1, -2, 1, 3, -1, -4, 2, -1]
      = Inr [0, 2, 4, 6, 8, 10, 12, 13]" by code_simp
  have h2: "rsp_findpeaks_outliers [1, -1, 1, 1, -1, -1, 1, 1, -1, -2, 1, 3, -1, -4, 2, -1]
      [0, 2, 4, 6, 8, 10, 12, 13] 0 = Inr ([2, 4, 6, 8, 10, 12], [1, -1, 1, -1, 1, -1])"
    by code_simp
  have h3: "rsp_findpeaks_sanitize [2, 4, 6, 8, 10, 12] [1, -1, 1, -1, 1, -1] = Inr ([6, 10], [4, 8])"
    by code_simp
  have h4: "(3 :: int) \<noteq> 0" by simp
  have r: "rsp_findpeaks_biosppy [1, -1, 1, 1, -1, -1, 1, 1, -1, -2, 1, 3, -1, -4, 2, -1] 3
      = Inr \<lparr>RSP_Peaks = [10], RSP_Troughs = [8]\<rparr>" by code_simp
  from rate_filter_drops_pairs [OF h1 h2 h3 h4] h1 h2 h3 r show ?thesis by simp
qed


subsection \<open>C8: fewer than two surviving extrema\<close>

text \<open>
  C8.  When fewer than two extrema are left by the outlier filter (amplitude test and
  alternation repair), the sanitizer raises \<open>IndexError\<close> and the pipeline fails with it;
  no empty result is returned.
\<close>

theorem sanitize_fails_below_two:
  assumes "rsp_findpeaks_extrema x = Inr e0"
    and "rsp_findpeaks_outliers x e0 amplitude_min = Inr (extrema, amplitudes)"
    and "length extrema < 2"
  shows "rsp_findpeaks_sanitize extrema amplitudes = Inl IndexError \<and>
         rsp_findpeaks_khodadad x amplitude_min = Inl IndexError"
proof -
  from assms(2) have "length amplitudes = length extrema" by (rule outliers_length)
  with assms(3) have "rsp_findpeaks_sanitize extrema amplitudes = Inl IndexError"
    by (simp add: rsp_findpeaks_sanitize_def)
  with assms(1,2) show ?thesis by (simp add: rsp_findpeaks_khodadad_def)
qed

theorem sanitize_fails_below_two_witness:
  "rsp_findpeaks_extrema [-1, 1, 1, -1, -1, 1] = Inr [1, 3] \<and>
   rsp_findpeaks_outliers [-1, 1, 1, -1, -1, 1] [1, 3] (3 / 10) = Inr ([1], [1]) \<and>
   length [1 :: nat] < 2 \<and>
   rsp_findpeaks_sanitize [1] [1] = Inl IndexError \<and>
   rsp_findpeaks_khodadad [-1, 1, 1, -1, -1, 1] (3 / 10) = Inl IndexError"
proof -
  have h1: "rsp_findpeaks_extrema [-1, 1, 1, -1, -1, 1] = Inr [1, 3]" by code_simp
  have h2: "rsp_findpeaks_outliers [-1, 1, 1, -1, -1, 1] [1, 3] (3 / 10) = Inr ([1], [1])"
    by code_simp
  have h3: "length [1 :: nat] < 2" by simp
  from sanitize_fails_below_two [OF h1 h2 h3] h1 h2 show ?thesis by simp
qed


subsection \<open>C9: selection of the method\<close>

text \<open>
  C9, as stated, fails in two places.  The column of a table is retrieved before the method
  name is looked at, so with a table that lacks the column the call fails with \<open>KeyError\<close>,
  not with the error about the method, whatever the method name is.  And the message of that
  error does not name every accepted method: \<open>noto2018\<close> is accepted and absent from it.
\<close>

theorem method_selection_counterexample:
  "lower ''fourier'' \<notin> set [''khodadad'', ''khodadad2018'', ''biosppy'', ''noto'', ''noto2018'', ''scipy''] \<and>
   rsp_findpeaks no_detect_peaks_troughs no_find_peaks (DataFrame Map.empty)
     1000 ''fourier'' (3 / 10) (8 / 10) (5 / 10) 0 200 = Inl KeyError \<and>
   select_method no_detect_peaks_troughs no_find_peaks [-1, 1, 1, -1, -1, 1, 1, -1]
     1000 ''noto2018'' (3 / 10) (8 / 10) (5 / 10) 0 200 = Inr \<lparr>RSP_Peaks = [], RSP_Troughs = []\<rparr> \<and>
   \<not> occurs_in ''noto2018'' method_error"
proof -
  have "lower ''fourier'' \<notin> set [''khodadad'', ''khodadad2018'', ''biosppy'', ''noto'', ''noto2018'', ''scipy'']"
    by code_simp
  moreover have "rsp_findpeaks no_detect_peaks_troughs no_find_peaks (DataFrame Map.empty)
     1000 ''fourier'' (3 / 10) (8 / 10) (5 / 10) 0 200 = Inl KeyError"
    by (simp add: rsp_findpeaks_def retrieve_column_def getitem_def try_except_def)
  moreover have "select_method no_detect_peaks_troughs no_find_peaks [-1, 1, 1, -1, -1, 1, 1, -1]
     1000 ''noto2018'' (3 / 10) (8 / 10) (5 / 10) 0 200 = Inr \<lparr>RSP_Peaks = [], RSP_Troughs = []\<rparr>"
    by code_simp
  moreover have "\<not> occurs_in ''noto2018'' method_error" by code_simp
  ultimately show ?thesis by blast
qed

text \<open>
  C9, amended.  Two method names with the same lower-case form give the same result.  A name
  whose lower-case form is none of khodadad, khodadad2018, biosppy, noto, noto2018 and scipy
  makes the dispatch fail with \<open>ValueError\<close> whatever the signal and the external detectors
  are, hence before any processing of the signal; so does the entry point once the signal has
  been retrieved from its input.  The message of the error names khodadad2018, scipy and
  biosppy.
\<close>

theorem method_selection:
  "(lower m1 = lower m2 \<longrightarrow>
      rsp_findpeaks detect_peaks_troughs find_peaks rsp_cleaned sampling_rate m1 amplitude_min
        peak_distance peak_prominence delta lookahead =
      rsp_findpeaks detect_peaks_troughs find_peaks rsp_cleaned sampling_rate m2 amplitude_min
        peak_distance peak_prominence delta lookahead) \<and>
   (lower m \<notin> set [''khodadad'', ''khodadad2018'', ''biosppy'', ''noto'', ''noto2018'', ''scipy''] \<longrightarrow>
      select_method detect_peaks_troughs find_peaks cleaned sampling_rate m amplitude_min
        peak_distance peak_prominence delta lookahead = Inl (ValueError method_error) \<and>
      (retrieve_column rsp_cleaned = Inr cleaned \<longrightarrow>
         rsp_findpeaks detect_peaks_troughs find_peaks rsp_cleaned sampling_rate m amplitude_min
           peak_distance peak_prominence delta lookahead = Inl (ValueError method_error))) \<and>
   occurs_in ''khodadad2018'' method_error \<and>
   occurs_in ''scipy'' method_error \<and>
   occurs_in ''biosppy'' method_error"
proof (intro conjI impI)
  assume "lower m1 = lower m2"
  then show "rsp_findpeaks detect_peaks_troughs find_peaks rsp_cleaned sampling_rate m1 amplitude_min
        peak_distance peak_prominence delta lookahead =
      rsp_findpeaks detect_peaks_troughs find_peaks rsp_cleaned sampling_rate m2 amplitude_min
        peak_distance peak_prominence delta lookahead"
    by (simp add: rsp_findpeaks_def select_method_lower [of m1 m2])
next
  assume m: "lower m \<notin> set [''khodadad'', ''khodadad2018'', ''biosppy'', ''noto'', ''noto2018'', ''scipy'']"
  then show sel: "select_method detect_peaks_troughs find_peaks cleaned sampling_rate m amplitude_min
        peak_distance peak_prominence delta lookahead = Inl (ValueError method_error)"
    by (simp add: select_method_def)
  assume "retrieve_column rsp_cleaned = Inr cleaned"
  with sel show "rsp_findpeaks detect_peaks_troughs find_peaks rsp_cleaned sampling_rate m amplitude_min
           peak_distance peak_prominence delta lookahead = Inl (ValueError method_error)"
    by (simp add: rsp_findpeaks_def)
next
  show "occurs_in ''khodadad2018'' method_error" by code_simp
  show "occurs_in ''scipy'' method_error" by code_simp
  show "occurs_in ''biosppy'' method_error" by code_simp
qed

theorem method_selection_witness:
  "lower ''KhoDadad2018'' = lower ''khodadad2018'' \<and>
   lower ''Fourier'' \<notin> set [''khodadad'', ''khodadad2018'', ''biosppy'', ''noto'', ''noto2018'', ''scipy''] \<and>
   retrieve_column (ArrayLike [-1, 1, 1, -1, -1, 1, 1, -1]) = Inr [-1, 1, 1, -1, -1, 1, 1, -1] \<and>
   rsp_findpeaks no_detect_peaks_troughs no_find_peaks (ArrayLike [-1, 1, 1, -1, -1, 1, 1, -1])
     1000 ''KhoDadad2018'' (3 / 10) (8 / 10) (5 / 10) 0 200 =
   rsp_findpeaks no_detect_peaks_troughs no_find_peaks (ArrayLike [-1, 1, 1, -1, -1, 1, 1, -1])
     1000 ''khodadad2018'' (3 / 10) (8 / 10) (5 / 10) 0 200 \<and>
   rsp_findpeaks no_detect_peaks_troughs no_find_peaks (ArrayLike [-1, 1, 1, -1, -1, 1, 1, -1])
     1000 ''Fourier'' (3 / 10) (8 / 10) (5 / 10) 0 200 = Inl (ValueError method_error)"
proof -
  have h1: "lower ''KhoDadad2018'' = lower ''khodadad2018''" by code_simp
  have h2: "lower ''Fourier'' \<notin> set [''khodadad'', ''khodadad2018'', ''biosppy'', ''noto'', ''noto2018'', ''scipy'']"
    by code_simp
  have h3: "retrieve_column (ArrayLike [-1, 1, 1, -1, -1, 1, 1, -1]) = Inr [-1, 1, 1, -1, -1, 1, 1, -1]"
    by (simp add: retrieve_column_def)
  from method_selection [of "''KhoDadad2018''" "''khodadad2018''" no_detect_peaks_troughs no_find_peaks
      "ArrayLike [-1, 1, 1, -1, -1, 1, 1, -1]" 1000 "3 / 10" "8 / 10" "5 / 10" 0 200 "''Fourier''"
      "[-1, 1, 1, -1, -1, 1, 1, -1]"] h1 h2 h3
  show ?thesis by blast
qed


subsection \<open>C10: a table without the column \<open>RSP_Clean\<close>\<close>

text \<open>
  C10.  Given a table that has no column \<open>RSP_Clean\<close>, the call raises \<open>KeyError\<close>
  whatever the other columns and arguments are: the handlers around the lookup catch
  \<open>NameError\<close> only, so the columns \<open>RSP_Raw\<close> and \<open>RSP\<close> are never tried.
\<close>

theorem missing_RSP_Clean_raises_KeyError:
  assumes "df ''RSP_Clean'' = None"
  shows "retrieve_column (DataFrame df) = Inl KeyError \<and>
    rsp_findpeaks detect_peaks_troughs find_peaks (DataFrame df) sampling_rate method amplitude_min
       peak_distance peak_prominence delta lookahead = Inl KeyError"
  using assms by (simp add: rsp_findpeaks_def retrieve_column_def getitem_def try_except_def)

theorem missing_RSP_Clean_raises_KeyError_witness:
  "[''RSP_Raw'' \<mapsto> [-1, 1, -1, 1], ''RSP'' \<mapsto> [-1, 1, -1, 1]] ''RSP_Clean'' = None \<and>
   rsp_findpeaks no_detect_peaks_troughs no_find_peaks
     (DataFrame [''RSP_Raw'' \<mapsto> [-1, 1, -1, 1], ''RSP'' \<mapsto> [-1, 1, -1, 1]])
     1000 ''khodadad2018'' (3 / 10) (8 / 10) (5 / 10) 0 200 = Inl KeyError"
proof -
  have h: "[''RSP_Raw'' \<mapsto> [-1, 1, -1, 1 :: real], ''RSP'' \<mapsto> [-1, 1, -1, 1]] ''RSP_Clean'' = None"
    by simp
  from missing_RSP_Clean_raises_KeyError
         [where df = "[''RSP_Raw'' \<mapsto> [-1, 1, -1, 1], ''RSP'' \<mapsto> [-1, 1, -1, 1]]", OF h] h
  show ?thesis by simp
qed

end
